theory Spec2Isabelle
  imports Main
begin

section \<open>Package retry: retrying a function under a backoff policy\<close>

subsection \<open>Error values\<close>

text \<open>
  A Go \<^verbatim>\<open>error\<close> is an interface value that may be \<^verbatim>\<open>nil\<close>: it is an
  \<open>error option\<close> here, \<open>None\<close> for \<^verbatim>\<open>nil\<close>. The non-nil errors are
  \<^item> \<open>errorString s\<close>, what \<^verbatim>\<open>errors.New(s)\<close> builds: it has no \<^verbatim>\<open>Unwrap\<close> method;
  \<^item> \<open>wrapError s e\<close>, what \<^verbatim>\<open>fmt.Errorf(".. %w", e)\<close> builds: its \<^verbatim>\<open>Unwrap\<close>
    returns \<open>e\<close>;
  \<^item> \<open>retryablePtr r\<close>, a \<^verbatim>\<open>*retryableError\<close>, where \<open>r\<close> is the struct
    \<^verbatim>\<open>retryableError{err}\<close> of the package. Its field has type \<^verbatim>\<open>error\<close> and so
    may hold \<^verbatim>\<open>nil\<close>.
\<close>

datatype error =
    errorString string
  | wrapError string error
  | retryablePtr retryableError
and retryableError =
    RetryableErr "error option"

text \<open>\<^verbatim>\<open>func RetryableError(err error) error\<close>\<close>

fun RetryableError :: "error option \<Rightarrow> error option" where
  "RetryableError None = None"
| "RetryableError (Some e) = Some (retryablePtr (RetryableErr (Some e)))"

text \<open>\<^verbatim>\<open>func (e *retryableError) Unwrap() error\<close>\<close>

fun Unwrap :: "retryableError \<Rightarrow> error option" where
  "Unwrap (RetryableErr e) = e"

text \<open>
  \<^verbatim>\<open>errors.Unwrap(err)\<close> of the standard library: the result of the error's own
  \<^verbatim>\<open>Unwrap\<close> method, \<^verbatim>\<open>nil\<close> when it has none.
\<close>

fun errors_Unwrap :: "error \<Rightarrow> error option" where
  "errors_Unwrap (errorString s) = None"
| "errors_Unwrap (wrapError s e) = Some e"
| "errors_Unwrap (retryablePtr r) = Unwrap r"

text \<open>
  \<^verbatim>\<open>var rerr *retryableError; errors.As(err, &rerr)\<close> of the standard library: it walks
  the chain of \<^verbatim>\<open>Unwrap\<close> from \<open>err\<close> and stops at the first error that is a
  \<^verbatim>\<open>*retryableError\<close>. The result is \<open>Some r\<close> when \<^verbatim>\<open>errors.As\<close> returns true and
  has set \<^verbatim>\<open>rerr\<close> to \<open>r\<close>, and \<open>None\<close> when it returns false.
\<close>

fun errors_As :: "error \<Rightarrow> retryableError option" where
  "errors_As (errorString s) = None"
| "errors_As (wrapError s e) = errors_As e"
| "errors_As (retryablePtr r) = Some r"

text \<open>\<open>wrap_layers ms e\<close> wraps \<open>e\<close> in one \<^verbatim>\<open>%w\<close> layer for each message of \<open>ms\<close>.\<close>

fun wrap_layers :: "string list \<Rightarrow> error \<Rightarrow> error" where
  "wrap_layers [] e = e"
| "wrap_layers (m # ms) e = wrapError m (wrap_layers ms e)"

subsection \<open>Context, timer and the waiting select\<close>

text \<open>
  Time is a logical clock, a natural number of ticks. A \<^verbatim>\<open>context.Context\<close> is given
  by the instant at which its \<^verbatim>\<open>Done()\<close> channel is closed (\<open>None\<close>: never) and by the
  error its \<^verbatim>\<open>Err()\<close> returns from then on. A closed channel stays closed.
\<close>

record Context =
  done_at :: "nat option"
  cerr :: error

definition ctx_Done :: "Context \<Rightarrow> nat \<Rightarrow> bool" where
  "ctx_Done ctx t = (case done_at ctx of None \<Rightarrow> False | Some c \<Rightarrow> c \<le> t)"

definition ctx_Err :: "Context \<Rightarrow> nat \<Rightarrow> error option" where
  "ctx_Err ctx t = (if ctx_Done ctx t then Some (cerr ctx) else None)"

text \<open>
  \<^verbatim>\<open>time.NewTimer(next)\<close> at instant \<open>t\<close>: the instant at which the timer's channel
  becomes ready. A \<^verbatim>\<open>time.Duration\<close> is a signed integer, and a timer of zero or
  negative duration is ready at once.
\<close>

definition NewTimer :: "nat \<Rightarrow> int \<Rightarrow> nat" where
  "NewTimer t next = t + nat next"

text \<open>
  The blocking \<^verbatim>\<open>select\<close> over \<^verbatim>\<open>ctx.Done()\<close> and \<^verbatim>\<open>t.C\<close>, entered at instant \<open>t\<close>
  with a timer that is ready at \<open>fire\<close>. The case that is ready first runs, at the
  instant it becomes ready; when both are ready at the same instant the runtime picks
  one, and \<open>timer_first\<close> is its pick.
\<close>

datatype wake = CtxDone nat | TimerFired nat

definition select_wait :: "bool \<Rightarrow> Context \<Rightarrow> nat \<Rightarrow> nat \<Rightarrow> wake" where
  "select_wait timer_first ctx t fire =
     (case done_at ctx of
        None \<Rightarrow> TimerFired fire
      | Some c \<Rightarrow>
          if max c t < fire then CtxDone (max c t)
          else if fire < max c t then TimerFired fire
          else if timer_first then TimerFired fire
          else CtxDone fire)"

subsection \<open>Backoff and the retried function\<close>

text \<open>
  \<^verbatim>\<open>b.Next()\<close> of the \<^verbatim>\<open>Backoff\<close> interface returns the next duration and the stop
  flag, and may change the backoff's own state \<open>'b\<close>, which is passed and returned.
  The interface is declared outside \<^verbatim>\<open>retry.go\<close>, which uses this one method of it;
  the method is a parameter of the model.
\<close>

type_synonym 'b Backoff = "'b \<Rightarrow> (int \<times> bool) \<times> 'b"

text \<open>
  \<^verbatim>\<open>type RetryWithDataFunc[T any] func(ctx context.Context) (T, error)\<close>. The function
  is the caller's and may be impure: \<open>f ctx i t\<close> is what its invocation returns when
  it has been invoked \<open>i\<close> times before and is entered at instant \<open>t\<close>, together with
  the number of ticks the invocation takes.
\<close>

type_synonym 'v RetryWithDataFunc = "Context \<Rightarrow> nat \<Rightarrow> nat \<Rightarrow> ('v \<times> error option) \<times> nat"

subsection \<open>DoWithData\<close>

text \<open>
  The state of a run: the clock, the backoff's state, and two counters that only
  observe the run, the number of invocations of \<open>f\<close> and of \<^verbatim>\<open>b.Next()\<close> so far.
\<close>

record 'b state =
  now :: nat
  calls :: nat
  nexts :: nat
  bstate :: 'b

record ('v, 'b) outcome =
  val :: 'v
  err :: "error option"
  final :: "'b state"

datatype ('v, 'b) step = Return "('v, 'b) outcome" | Continue "'b state"

text \<open>
  One pass through the body of the \<^verbatim>\<open>for\<close> loop of \<^verbatim>\<open>DoWithData\<close>. \<open>emptyT\<close> is
  the zero value of the type \<^verbatim>\<open>T\<close>; \<open>pick i\<close> is the runtime's pick in the waiting
  \<^verbatim>\<open>select\<close> after invocation \<open>i\<close>. \<^verbatim>\<open>t.Stop()\<close> has no effect that the result shows.
\<close>

definition attempt ::
  "'v \<Rightarrow> (nat \<Rightarrow> bool) \<Rightarrow> Context \<Rightarrow> 'b Backoff \<Rightarrow> 'v RetryWithDataFunc \<Rightarrow> 'b state
     \<Rightarrow> ('v, 'b) step" where
  "attempt emptyT pick ctx Next f s =
     (if ctx_Done ctx (now s)
      then Return \<lparr>val = emptyT, err = ctx_Err ctx (now s), final = s\<rparr>
      else
        (case f ctx (calls s) (now s) of ((v, e), d) \<Rightarrow>
           (let s1 = s\<lparr>now := now s + d, calls := Suc (calls s)\<rparr> in
            (case e of
               None \<Rightarrow> Return \<lparr>val = v, err = None, final = s1\<rparr>
             | Some er \<Rightarrow>
                 (case errors_As er of
                    None \<Rightarrow> Return \<lparr>val = emptyT, err = Some er, final = s1\<rparr>
                  | Some rerr \<Rightarrow>
                      (case Next (bstate s1) of ((next, stop), b') \<Rightarrow>
                         (let s2 = s1\<lparr>nexts := Suc (nexts s1), bstate := b'\<rparr> in
                          if stop
                          then Return \<lparr>val = emptyT, err = Unwrap rerr, final = s2\<rparr>
                          else if ctx_Done ctx (now s2)
                          then Return \<lparr>val = emptyT, err = ctx_Err ctx (now s2), final = s2\<rparr>
                          else
                            (case select_wait (pick (calls s)) ctx (now s2)
                                    (NewTimer (now s2) next) of
                               CtxDone t \<Rightarrow>
                                 Return \<lparr>val = emptyT, err = ctx_Err ctx t,
                                   final = s2\<lparr>now := t\<rparr>\<rparr>
                             | TimerFired t \<Rightarrow> Continue (s2\<lparr>now := t\<rparr>)))))))))"

text \<open>
  The loop has no bound of its own: with a function that always fails retryably, a
  backoff that never stops and a context that is never done it runs forever, and the
  result is then \<open>None\<close>.
\<close>

partial_function (option) DoWithData_loop ::
  "'v \<Rightarrow> (nat \<Rightarrow> bool) \<Rightarrow> Context \<Rightarrow> 'b Backoff \<Rightarrow> 'v RetryWithDataFunc \<Rightarrow> 'b state
     \<Rightarrow> ('v, 'b) outcome option" where
  "DoWithData_loop emptyT pick ctx Next f s =
     (case attempt emptyT pick ctx Next f s of
        Return r \<Rightarrow> Some r
      | Continue s' \<Rightarrow> DoWithData_loop emptyT pick ctx Next f s')"

declare DoWithData_loop.simps [code]

text \<open>
  \<^verbatim>\<open>func DoWithData[T any](ctx, b, f) (T, error)\<close>, called at instant \<open>t0\<close> with a
  backoff whose state is \<open>b\<close>.
\<close>

definition DoWithData ::
  "'v \<Rightarrow> (nat \<Rightarrow> bool) \<Rightarrow> Context \<Rightarrow> 'b Backoff \<Rightarrow> 'b \<Rightarrow> 'v RetryWithDataFunc \<Rightarrow> nat
     \<Rightarrow> ('v, 'b) outcome option" where
  "DoWithData emptyT pick ctx Next b f t0 =
     DoWithData_loop emptyT pick ctx Next f \<lparr>now = t0, calls = 0, nexts = 0, bstate = b\<rparr>"

text \<open>
  A backoff in state \<open>b\<close> allows exactly \<open>n\<close> retries: its next \<open>n\<close> calls of
  \<^verbatim>\<open>Next\<close> return \<^verbatim>\<open>stop = false\<close> and the call after them returns \<^verbatim>\<open>stop = true\<close>.
\<close>

fun allows :: "'b Backoff \<Rightarrow> 'b \<Rightarrow> nat \<Rightarrow> bool" where
  "allows Next b 0 = snd (fst (Next b))"
| "allows Next b (Suc n) = (\<not> snd (fst (Next b)) \<and> allows Next (snd (Next b)) n)"

text \<open>
  A backoff in state \<open>b\<close> allows at least \<open>n\<close> retries: its next \<open>n\<close> calls of
  \<^verbatim>\<open>Next\<close> return \<^verbatim>\<open>stop = false\<close>. Nothing is said of the calls after them, so a
  backoff that never stops allows at least \<open>n\<close> retries for every \<open>n\<close>.
\<close>

fun continues :: "'b Backoff \<Rightarrow> 'b \<Rightarrow> nat \<Rightarrow> bool" where
  "continues Next b 0 = True"
| "continues Next b (Suc n) = (\<not> snd (fst (Next b)) \<and> continues Next (snd (Next b)) n)"

text \<open>
  The state in which the next pass through the loop starts when the function has been
  invoked in state \<open>s\<close>, \<^verbatim>\<open>Next\<close> has been called and the wait has lasted until the
  timer fired.
\<close>

definition after_wait ::
  "Context \<Rightarrow> 'b Backoff \<Rightarrow> 'v RetryWithDataFunc \<Rightarrow> 'b state \<Rightarrow> 'b state" where
  "after_wait ctx Next f s =
     (case f ctx (calls s) (now s) of (r, d) \<Rightarrow>
        (case Next (bstate s) of ((next, stop), b') \<Rightarrow>
           \<lparr>now = NewTimer (now s + d) next, calls = Suc (calls s),
             nexts = Suc (nexts s), bstate = b'\<rparr>))"

text \<open>
  \<open>pass_head ctx Next f s n\<close> is the state in which the \<open>n\<close>-th pass after the one
  that starts in \<open>s\<close> starts, when every wait before it lasts until its timer fires;
  its clock is the instant at which that pass makes its invocation.
\<close>

fun pass_head ::
  "Context \<Rightarrow> 'b Backoff \<Rightarrow> 'v RetryWithDataFunc \<Rightarrow> 'b state \<Rightarrow> nat \<Rightarrow> 'b state" where
  "pass_head ctx Next f s 0 = s"
| "pass_head ctx Next f s (Suc n) = pass_head ctx Next f (after_wait ctx Next f s) n"

section \<open>Properties\<close>

subsection \<open>Errors\<close>

lemma error_neq_wrapper: "e \<noteq> retryablePtr (RetryableErr (Some e))"
proof
  assume "e = retryablePtr (RetryableErr (Some e))"
  then have "size e = size (retryablePtr (RetryableErr (Some e)))" by simp
  then show False by simp
qed

lemma errors_As_wrap_layers: "errors_As (wrap_layers ms e) = errors_As e"
  by (induction ms) simp_all

subsection \<open>One pass through the loop body\<close>

lemma attempt_done:
  "ctx_Done ctx (now s) \<Longrightarrow>
   attempt emptyT pick ctx Next f s = Return \<lparr>val = emptyT, err = Some (cerr ctx), final = s\<rparr>"
  by (simp add: attempt_def ctx_Err_def)

lemma attempt_not_retryable:
  "\<not> ctx_Done ctx (now s) \<Longrightarrow> f ctx (calls s) (now s) = ((v, Some er), d) \<Longrightarrow>
   errors_As er = None \<Longrightarrow>
   attempt emptyT pick ctx Next f s =
     Return \<lparr>val = emptyT, err = Some er, final = s\<lparr>now := now s + d, calls := Suc (calls s)\<rparr>\<rparr>"
  by (simp add: attempt_def)

lemma attempt_done_before_wait:
  "\<not> ctx_Done ctx (now s) \<Longrightarrow> f ctx (calls s) (now s) = ((v, Some er), d) \<Longrightarrow>
   errors_As er = Some rerr \<Longrightarrow> Next (bstate s) = ((dur, False), b') \<Longrightarrow>
   ctx_Done ctx (now s + d) \<Longrightarrow>
   attempt emptyT pick ctx Next f s =
     Return \<lparr>val = emptyT, err = Some (cerr ctx),
       final = \<lparr>now = now s + d, calls = Suc (calls s), nexts = Suc (nexts s), bstate = b'\<rparr>\<rparr>"
  by (simp add: attempt_def ctx_Err_def)

lemma attempt_wait:
  "\<not> ctx_Done ctx (now s) \<Longrightarrow> f ctx (calls s) (now s) = ((v, Some er), d) \<Longrightarrow>
   errors_As er = Some rerr \<Longrightarrow> Next (bstate s) = ((dur, False), b') \<Longrightarrow>
   \<not> ctx_Done ctx (now s + d) \<Longrightarrow>
   attempt emptyT pick ctx Next f s =
     (case select_wait (pick (calls s)) ctx (now s + d) (NewTimer (now s + d) dur) of
        CtxDone t \<Rightarrow> Return \<lparr>val = emptyT, err = ctx_Err ctx t,
          final = \<lparr>now = t, calls = Suc (calls s), nexts = Suc (nexts s), bstate = b'\<rparr>\<rparr>
      | TimerFired t \<Rightarrow>
          Continue \<lparr>now = t, calls = Suc (calls s), nexts = Suc (nexts s), bstate = b'\<rparr>)"
  by (simp add: attempt_def split: wake.splits)

lemma attempt_stop:
  "\<not> ctx_Done ctx (now s) \<Longrightarrow> f ctx (calls s) (now s) = ((v, Some er), d) \<Longrightarrow>
   errors_As er = Some rerr \<Longrightarrow> Next (bstate s) = ((next, True), b') \<Longrightarrow>
   attempt emptyT pick ctx Next f s =
     Return \<lparr>val = emptyT, err = Unwrap rerr,
       final = \<lparr>now = now s + d, calls = Suc (calls s), nexts = Suc (nexts s), bstate = b'\<rparr>\<rparr>"
  by (simp add: attempt_def)

lemma ctx_Done_mono: "ctx_Done ctx t \<Longrightarrow> t \<le> t' \<Longrightarrow> ctx_Done ctx t'"
  by (auto simp: ctx_Done_def split: option.splits)

lemma after_wait_eq:
  "f ctx (calls s) (now s) = ((v, e), d) \<Longrightarrow> Next (bstate s) = ((dur, stop), b') \<Longrightarrow>
   after_wait ctx Next f s =
     \<lparr>now = NewTimer (now s + d) dur, calls = Suc (calls s), nexts = Suc (nexts s),
       bstate = b'\<rparr>"
  by (simp add: after_wait_def)

lemma now_after_wait: "now s \<le> now (after_wait ctx Next f s)"
  by (simp add: after_wait_def NewTimer_def split: prod.splits)

lemma now_pass_head: "now s \<le> now (pass_head ctx Next f s n)"
proof (induction n arbitrary: s)
  case 0
  show ?case by simp
next
  case (Suc n)
  have "now s \<le> now (after_wait ctx Next f s)" by (rule now_after_wait)
  also have "\<dots> \<le> now (pass_head ctx Next f (after_wait ctx Next f s) n)" by (rule Suc.IH)
  finally show ?case by simp
qed

lemma attempt_retry:
  assumes live: "\<not> ctx_Done ctx (NewTimer (now s + d) dur)"
    and fv: "f ctx (calls s) (now s) = ((v, Some er), d)"
    and as: "errors_As er = Some rerr"
    and nx: "Next (bstate s) = ((dur, False), b')"
  shows "attempt emptyT pick ctx Next f s = Continue (after_wait ctx Next f s)"
proof -
  have 1: "\<not> ctx_Done ctx (now s)"
    using live ctx_Done_mono [of ctx "now s" "NewTimer (now s + d) dur"]
    by (auto simp: NewTimer_def)
  have 2: "\<not> ctx_Done ctx (now s + d)"
    using live ctx_Done_mono [of ctx "now s + d" "NewTimer (now s + d) dur"]
    by (auto simp: NewTimer_def)
  have 3: "select_wait (pick (calls s)) ctx (now s + d) (NewTimer (now s + d) dur) =
      TimerFired (NewTimer (now s + d) dur)"
    using live by (auto simp: select_wait_def ctx_Done_def split: option.splits)
  have 4: "after_wait ctx Next f s =
      \<lparr>now = NewTimer (now s + d) dur, calls = Suc (calls s), nexts = Suc (nexts s),
        bstate = b'\<rparr>"
    using fv nx by (rule after_wait_eq)
  show ?thesis
    using attempt_wait [of ctx s f v er d rerr Next dur b' emptyT pick, OF 1 fv as nx 2] 3 4
    by simp
qed

lemma attempt_success:
  "\<not> ctx_Done ctx (now s) \<Longrightarrow> f ctx (calls s) (now s) = ((v, None), d) \<Longrightarrow>
   attempt emptyT pick ctx Next f s =
     Return \<lparr>val = v, err = None, final = s\<lparr>now := now s + d, calls := Suc (calls s)\<rparr>\<rparr>"
  by (simp add: attempt_def)

lemma attempt_retryable_nexts:
  assumes "\<not> ctx_Done ctx (now s)"
    and "f ctx (calls s) (now s) = ((v, Some er), d)"
    and "errors_As er = Some rerr"
  shows "attempt emptyT pick ctx Next f s = Return r \<Longrightarrow> nexts (final r) = Suc (nexts s)"
    and "attempt emptyT pick ctx Next f s = Continue s' \<Longrightarrow> nexts s' = Suc (nexts s)"
  using assms
  by (auto simp: attempt_def Let_def split: if_splits prod.splits wake.splits)

subsection \<open>The loop\<close>

lemma loop_Return:
  "attempt emptyT pick ctx Next f s = Return r \<Longrightarrow>
   DoWithData_loop emptyT pick ctx Next f s = Some r"
  by (subst DoWithData_loop.simps) simp

lemma loop_Continue:
  "attempt emptyT pick ctx Next f s = Continue s' \<Longrightarrow>
   DoWithData_loop emptyT pick ctx Next f s = DoWithData_loop emptyT pick ctx Next f s'"
  by (subst DoWithData_loop.simps) simp

lemma attempt_nexts_Return:
  "attempt emptyT pick ctx Next f s = Return r \<Longrightarrow> nexts s \<le> nexts (final r)"
  by (auto simp: attempt_def Let_def split: if_splits prod.splits option.splits wake.splits)

lemma attempt_nexts_Continue:
  "attempt emptyT pick ctx Next f s = Continue s' \<Longrightarrow> nexts s \<le> nexts s'"
  by (auto simp: attempt_def Let_def split: if_splits prod.splits option.splits wake.splits)

lemma loop_nexts_mono:
  "DoWithData_loop emptyT pick ctx Next f s = Some r \<Longrightarrow> nexts s \<le> nexts (final r)"
proof (induction emptyT pick ctx Next f s r
    rule: DoWithData_loop.raw_induct [rotated 1, consumes 1])
  case (1 loop emptyT pick ctx Next f s r)
  show ?case
  proof (cases "attempt emptyT pick ctx Next f s")
    case (Return r')
    with 1(2) have "r' = r" by simp
    with Return show ?thesis by (simp add: attempt_nexts_Return)
  next
    case (Continue s')
    with 1(2) have "loop emptyT pick ctx Next f s' = Some r" by simp
    then have "nexts s' \<le> nexts (final r)" by (rule 1(1))
    moreover have "nexts s \<le> nexts s'" using Continue by (rule attempt_nexts_Continue)
    ultimately show ?thesis by simp
  qed
qed

lemma allows_continues: "allows Next b N \<Longrightarrow> K \<le> N \<Longrightarrow> continues Next b K"
proof (induction K arbitrary: b N)
  case 0
  show ?case by simp
next
  case (Suc K)
  then obtain N' where N: "N = Suc N'" "K \<le> N'" by (cases N) auto
  with Suc.prems(1) have "\<not> snd (fst (Next b))" "allows Next (snd (Next b)) N'" by simp_all
  with Suc.IH N(2) show ?case by simp
qed

lemma loop_exhausts:
  assumes retry: "\<forall>i t. \<exists>er rerr. snd (fst (f ctx i t)) = Some er \<and> errors_As er = Some rerr
                  \<and> Unwrap rerr = cs i"
  shows "allows Next (bstate s) N \<Longrightarrow> \<not> ctx_Done ctx (now (pass_head ctx Next f s N)) \<Longrightarrow>
    \<exists>r. DoWithData_loop emptyT pick ctx Next f s = Some r \<and> val r = emptyT
      \<and> err r = cs (calls s + N) \<and> calls (final r) = calls s + N + 1
      \<and> nexts (final r) = nexts s + N + 1"
proof (induction N arbitrary: s)
  case 0
  obtain er rerr where e: "snd (fst (f ctx (calls s) (now s))) = Some er"
    "errors_As er = Some rerr" "Unwrap rerr = cs (calls s)"
    using retry by blast
  obtain v d where fv: "f ctx (calls s) (now s) = ((v, Some er), d)"
    using e(1) by (cases "f ctx (calls s) (now s)") auto
  obtain dur b' where nx: "Next (bstate s) = ((dur, True), b')"
    using "0.prems"(1) by (cases "Next (bstate s)") auto
  have "\<not> ctx_Done ctx (now s)" using "0.prems"(2) by simp
  then have "attempt emptyT pick ctx Next f s = Return \<lparr>val = emptyT, err = Unwrap rerr,
       final = \<lparr>now = now s + d, calls = Suc (calls s), nexts = Suc (nexts s), bstate = b'\<rparr>\<rparr>"
    using fv e(2) nx by (rule attempt_stop)
  then show ?case using e(3)
    by (simp add: loop_Return)
next
  case (Suc N)
  obtain er rerr where e: "snd (fst (f ctx (calls s) (now s))) = Some er"
    "errors_As er = Some rerr" "Unwrap rerr = cs (calls s)"
    using retry by blast
  obtain v d where fv: "f ctx (calls s) (now s) = ((v, Some er), d)"
    using e(1) by (cases "f ctx (calls s) (now s)") auto
  obtain dur b' where nx: "Next (bstate s) = ((dur, False), b')"
    and al: "allows Next b' N"
    using Suc.prems(1) by (cases "Next (bstate s)") auto
  let ?s' = "after_wait ctx Next f s"
  have s': "?s' = \<lparr>now = NewTimer (now s + d) dur, calls = Suc (calls s),
      nexts = Suc (nexts s), bstate = b'\<rparr>"
    using fv nx by (rule after_wait_eq)
  have far: "\<not> ctx_Done ctx (now (pass_head ctx Next f ?s' N))"
    using Suc.prems(2) by simp
  have "\<not> ctx_Done ctx (now ?s')"
    using far ctx_Done_mono [OF _ now_pass_head [of ?s' ctx Next f N]] by blast
  then have "\<not> ctx_Done ctx (NewTimer (now s + d) dur)" by (simp add: s')
  then have step: "attempt emptyT pick ctx Next f s = Continue ?s'"
    using fv e(2) nx by (rule attempt_retry)
  have "allows Next (bstate ?s') N" using al by (simp add: s')
  from Suc.IH [OF this far] step show ?case
    by (simp add: loop_Continue s')
qed

lemma loop_succeeds_after:
  "continues Next (bstate s) K \<Longrightarrow> \<not> ctx_Done ctx (now (pass_head ctx Next f s K)) \<Longrightarrow>
    \<forall>i<K. \<forall>t. \<exists>er rerr. snd (fst (f ctx (calls s + i) t)) = Some er \<and> errors_As er = Some rerr \<Longrightarrow>
    \<forall>t. fst (f ctx (calls s + K) t) = (v, None) \<Longrightarrow>
    \<exists>r. DoWithData_loop emptyT pick ctx Next f s = Some r \<and> val r = v
      \<and> err r = None \<and> calls (final r) = calls s + K + 1
      \<and> nexts (final r) = nexts s + K"
proof (induction K arbitrary: s)
  case 0
  obtain d where fv: "f ctx (calls s) (now s) = ((v, None), d)"
    using "0.prems"(4) [rule_format, of "now s"] by (cases "f ctx (calls s) (now s)") auto
  have "\<not> ctx_Done ctx (now s)" using "0.prems"(2) by simp
  then have "attempt emptyT pick ctx Next f s =
     Return \<lparr>val = v, err = None, final = s\<lparr>now := now s + d, calls := Suc (calls s)\<rparr>\<rparr>"
    using fv by (rule attempt_success)
  then show ?case
    by (simp add: loop_Return)
next
  case (Suc K)
  obtain er rerr where e: "snd (fst (f ctx (calls s) (now s))) = Some er"
    "errors_As er = Some rerr"
    using Suc.prems(3) [rule_format, of 0 "now s"] by auto
  obtain v' d where fv: "f ctx (calls s) (now s) = ((v', Some er), d)"
    using e(1) by (cases "f ctx (calls s) (now s)") auto
  obtain dur b' where nx: "Next (bstate s) = ((dur, False), b')"
    and al: "continues Next b' K"
    using Suc.prems(1) by (cases "Next (bstate s)") auto
  let ?s' = "after_wait ctx Next f s"
  have s': "?s' = \<lparr>now = NewTimer (now s + d) dur, calls = Suc (calls s),
      nexts = Suc (nexts s), bstate = b'\<rparr>"
    using fv nx by (rule after_wait_eq)
  have far: "\<not> ctx_Done ctx (now (pass_head ctx Next f ?s' K))"
    using Suc.prems(2) by simp
  have "\<not> ctx_Done ctx (now ?s')"
    using far ctx_Done_mono [OF _ now_pass_head [of ?s' ctx Next f K]] by blast
  then have "\<not> ctx_Done ctx (NewTimer (now s + d) dur)" by (simp add: s')
  then have step: "attempt emptyT pick ctx Next f s = Continue ?s'"
    using fv e(2) nx by (rule attempt_retry)
  have 1: "continues Next (bstate ?s') K" using al by (simp add: s')
  have 3: "\<forall>i<K. \<forall>t. \<exists>er rerr. snd (fst (f ctx (calls ?s' + i) t)) = Some er
      \<and> errors_As er = Some rerr"
  proof (intro allI impI)
    fix i t assume "i < K"
    then show "\<exists>er rerr. snd (fst (f ctx (calls ?s' + i) t)) = Some er \<and> errors_As er = Some rerr"
      using Suc.prems(3) [rule_format, of "Suc i" t] by (simp add: s')
  qed
  have 4: "\<forall>t. fst (f ctx (calls ?s' + K) t) = (v, None)"
    using Suc.prems(4) by (simp add: s')
  from Suc.IH [OF 1 far 3 4] step show ?case
    by (simp add: loop_Continue s')
qed

subsection \<open>The wrapper\<close>

text \<open>
  C6: \<^verbatim>\<open>RetryableError(nil)\<close> is \<^verbatim>\<open>nil\<close>.
\<close>

theorem RetryableError_nil: "RetryableError None = None"
  by simp

text \<open>
  C7: for a non-nil error \<open>e\<close>, \<^verbatim>\<open>RetryableError(e)\<close> is a \<^verbatim>\<open>*retryableError\<close> whose
  \<^verbatim>\<open>Unwrap\<close> method, and so \<^verbatim>\<open>errors.Unwrap\<close> of it, returns exactly \<open>e\<close>.
\<close>

theorem Unwrap_RetryableError:
  "\<exists>r. RetryableError (Some e) = Some (retryablePtr r) \<and> Unwrap r = Some e
      \<and> errors_Unwrap (retryablePtr r) = Some e"
  by simp

subsection \<open>Retrying\<close>

text \<open>
  C1: take a function whose every invocation returns \<^verbatim>\<open>RetryableError(cause)\<close> and a
  backoff that allows exactly \<open>N\<close> retries, under any context, cancellable or not, that
  is not done at the instant at which invocation \<open>N + 1\<close> is made. Then
  \<^verbatim>\<open>DoWithData\<close> returns; it has invoked the function exactly \<open>N + 1\<close> times (and
  \<^verbatim>\<open>Next\<close> as often), and it returns the zero value with the cause that the last
  invocation wrapped, which is not the wrapper.
\<close>

theorem exhausted_policy_returns_cause:
  assumes "\<not> ctx_Done ctx
      (now (pass_head ctx Next f \<lparr>now = t0, calls = 0, nexts = 0, bstate = b\<rparr> N))"
    and "\<forall>i t. snd (fst (f ctx i t)) = RetryableError (Some (cause i))"
    and "allows Next b N"
  shows "\<exists>r. DoWithData emptyT pick ctx Next b f t0 = Some r
      \<and> calls (final r) = N + 1 \<and> nexts (final r) = N + 1
      \<and> val r = emptyT \<and> err r = Some (cause N)
      \<and> err r \<noteq> RetryableError (Some (cause N))"
proof -
  let ?s = "\<lparr>now = t0, calls = 0, nexts = 0, bstate = b\<rparr>"
  have retry: "\<forall>i t. \<exists>er rerr. snd (fst (f ctx i t)) = Some er \<and> errors_As er = Some rerr
      \<and> Unwrap rerr = Some (cause i)"
    using assms(2) by simp
  have "allows Next (bstate ?s) N" using assms(3) by simp
  with retry
  have "\<exists>r. DoWithData_loop emptyT pick ctx Next f ?s = Some r \<and> val r = emptyT
      \<and> err r = Some (cause (calls ?s + N)) \<and> calls (final r) = calls ?s + N + 1
      \<and> nexts (final r) = nexts ?s + N + 1"
    using assms(1) by (rule loop_exhausts)
  then show ?thesis
    by (auto simp: DoWithData_def error_neq_wrapper)
qed

theorem exhausted_policy_returns_cause_witness:
  "now (pass_head \<lparr>done_at = Some 1000, cerr = errorString ''context canceled''\<rparr>
          (\<lambda>n::nat. ((5, 2 \<le> n), Suc n))
          (\<lambda>c i t. ((0::nat, RetryableError (Some (errorString ''errX''))), 1))
          \<lparr>now = 0, calls = 0, nexts = 0, bstate = 0\<rparr> (Suc (Suc 0))) = 12
   \<and> \<not> ctx_Done \<lparr>done_at = Some 1000, cerr = errorString ''context canceled''\<rparr> 12
   \<and> allows (\<lambda>n::nat. ((5, 2 \<le> n), Suc n)) 0 (Suc (Suc 0))
   \<and> (\<exists>r. DoWithData (0::nat) (\<lambda>i. False)
          \<lparr>done_at = Some 1000, cerr = errorString ''context canceled''\<rparr>
          (\<lambda>n::nat. ((5, 2 \<le> n), Suc n)) 0
          (\<lambda>c i t. ((0, RetryableError (Some (errorString ''errX''))), 1)) 0 = Some r
        \<and> calls (final r) = 3 \<and> nexts (final r) = 3
        \<and> err r = Some (errorString ''errX''))"
  using exhausted_policy_returns_cause
    [of "\<lparr>done_at = Some 1000, cerr = errorString ''context canceled''\<rparr>"
        "\<lambda>n::nat. ((5, 2 \<le> n), Suc n)"
        "\<lambda>c i t. ((0::nat, RetryableError (Some (errorString ''errX''))), 1)"
        0 0 "Suc (Suc 0)" "\<lambda>i. errorString ''errX''" 0 "\<lambda>i. False"]
  by (auto simp: after_wait_def NewTimer_def ctx_Done_def)

text \<open>
  C2: when the context is not done at the call and the first invocation returns an
  error in whose chain \<^verbatim>\<open>errors.As\<close> finds no \<^verbatim>\<open>*retryableError\<close>, \<^verbatim>\<open>DoWithData\<close>
  returns that same error with the zero value after this one invocation; \<^verbatim>\<open>Next\<close> is
  not called and the backoff's state is as it was.
\<close>

theorem plain_error_returned_at_once:
  assumes "\<not> ctx_Done ctx t0"
    and "fst (f ctx 0 t0) = (v, Some e)"
    and "errors_As e = None"
  shows "DoWithData emptyT pick ctx Next b f t0 =
    Some \<lparr>val = emptyT, err = Some e,
      final = \<lparr>now = t0 + snd (f ctx 0 t0), calls = 1, nexts = 0, bstate = b\<rparr>\<rparr>"
proof -
  let ?s = "\<lparr>now = t0, calls = 0, nexts = 0, bstate = b\<rparr>"
  have "\<not> ctx_Done ctx (now ?s)" using assms(1) by simp
  moreover have "f ctx (calls ?s) (now ?s) = ((v, Some e), snd (f ctx 0 t0))"
    using assms(2) by (cases "f ctx 0 t0") simp
  ultimately have "attempt emptyT pick ctx Next f ?s =
      Return \<lparr>val = emptyT, err = Some e,
        final = ?s\<lparr>now := now ?s + snd (f ctx 0 t0), calls := Suc (calls ?s)\<rparr>\<rparr>"
    using assms(3) by (rule attempt_not_retryable)
  then show ?thesis
    by (simp add: DoWithData_def loop_Return)
qed

theorem plain_error_returned_at_once_witness:
  "\<not> ctx_Done \<lparr>done_at = Some 9, cerr = errorString ''context canceled''\<rparr> 4
   \<and> errors_As (wrapError ''read'' (errorString ''boom'')) = None
   \<and> DoWithData (0::int) (\<lambda>i. False)
        \<lparr>done_at = Some 9, cerr = errorString ''context canceled''\<rparr>
        (\<lambda>n::nat. ((1, False), Suc n)) 0
        (\<lambda>c i t. ((7, Some (wrapError ''read'' (errorString ''boom''))), 2)) 4 =
      Some \<lparr>val = 0, err = Some (wrapError ''read'' (errorString ''boom'')),
        final = \<lparr>now = 6, calls = 1, nexts = 0, bstate = 0\<rparr>\<rparr>"
  using plain_error_returned_at_once
    [of "\<lparr>done_at = Some 9, cerr = errorString ''context canceled''\<rparr>" 4
        "\<lambda>c i t. ((7::int, Some (wrapError ''read'' (errorString ''boom''))), 2)"
        7 "wrapError ''read'' (errorString ''boom'')" 0 "\<lambda>i. False"
        "\<lambda>n::nat. ((1, False), Suc n)" 0]
  by (simp add: ctx_Done_def)

text \<open>
  C3: take a backoff whose first \<open>K\<close> calls of \<^verbatim>\<open>Next\<close> return \<^verbatim>\<open>stop = false\<close>; by
  \<open>allows_continues\<close> that is every \<open>K\<close> up to the number of retries of a backoff that
  allows exactly \<open>N\<close>, and every \<open>K\<close> for a backoff that never stops. Under any
  context, cancellable or not, that is not done at the instant at which invocation
  \<open>K + 1\<close> is made, a function whose invocations \<open>1\<close> to \<open>K\<close> return
  \<^verbatim>\<open>RetryableError\<close> of some error and whose invocation \<open>K + 1\<close> returns \<open>v\<close> with a
  \<^verbatim>\<open>nil\<close> error is invoked exactly \<open>K + 1\<close> times (and \<^verbatim>\<open>Next\<close> is called \<open>K\<close>
  times), and \<^verbatim>\<open>DoWithData\<close> returns \<open>v\<close> with a \<^verbatim>\<open>nil\<close> error.
\<close>

theorem success_after_retries:
  assumes "\<not> ctx_Done ctx
      (now (pass_head ctx Next f \<lparr>now = t0, calls = 0, nexts = 0, bstate = b\<rparr> K))"
    and "continues Next b K"
    and "\<forall>i<K. \<forall>t. \<exists>e. snd (fst (f ctx i t)) = RetryableError (Some e)"
    and "\<forall>t. fst (f ctx K t) = (v, None)"
  shows "\<exists>r. DoWithData emptyT pick ctx Next b f t0 = Some r
      \<and> calls (final r) = K + 1 \<and> nexts (final r) = K \<and> val r = v \<and> err r = None"
proof -
  let ?s = "\<lparr>now = t0, calls = 0, nexts = 0, bstate = b\<rparr>"
  have 1: "continues Next (bstate ?s) K" using assms(2) by simp
  have 3: "\<forall>i<K. \<forall>t. \<exists>er rerr. snd (fst (f ctx (calls ?s + i) t)) = Some er
      \<and> errors_As er = Some rerr"
  proof (intro allI impI)
    fix i t assume "i < K"
    then obtain e where "snd (fst (f ctx i t)) = RetryableError (Some e)"
      using assms(3) by blast
    then show "\<exists>er rerr. snd (fst (f ctx (calls ?s + i) t)) = Some er
        \<and> errors_As er = Some rerr"
      by simp
  qed
  have 4: "\<forall>t. fst (f ctx (calls ?s + K) t) = (v, None)" using assms(4) by simp
  have "\<exists>r. DoWithData_loop emptyT pick ctx Next f ?s = Some r \<and> val r = v
      \<and> err r = None \<and> calls (final r) = calls ?s + K + 1
      \<and> nexts (final r) = nexts ?s + K"
    using 1 assms(1) 3 4 by (rule loop_succeeds_after)
  then show ?thesis
    by (auto simp: DoWithData_def)
qed

theorem success_after_retries_witness:
  "allows (\<lambda>n::nat. ((5, 3 \<le> n), Suc n)) 0 (Suc (Suc (Suc 0)))
   \<and> Suc (Suc 0) < Suc (Suc (Suc 0))
   \<and> continues (\<lambda>n::nat. ((5, 3 \<le> n), Suc n)) 0 (Suc (Suc 0))
   \<and> \<not> ctx_Done \<lparr>done_at = Some 1000, cerr = errorString ''context canceled''\<rparr>
        (now (pass_head \<lparr>done_at = Some 1000, cerr = errorString ''context canceled''\<rparr>
          (\<lambda>n::nat. ((5, 3 \<le> n), Suc n))
          (\<lambda>c i t. if i < 2 then ((0::int, RetryableError (Some (errorString ''flaky''))), 1)
             else ((42, None), 1))
          \<lparr>now = 0, calls = 0, nexts = 0, bstate = 0\<rparr> (Suc (Suc 0))))
   \<and> (\<exists>r. DoWithData (0::int) (\<lambda>i. False)
          \<lparr>done_at = Some 1000, cerr = errorString ''context canceled''\<rparr>
          (\<lambda>n::nat. ((5, 3 \<le> n), Suc n)) 0
          (\<lambda>c i t. if i < 2 then ((0, RetryableError (Some (errorString ''flaky''))), 1)
             else ((42, None), 1)) 0 = Some r
        \<and> calls (final r) = 3 \<and> nexts (final r) = 2 \<and> val r = 42 \<and> err r = None)
   \<and> continues (\<lambda>n::nat. ((0, False), Suc n)) 0 (Suc (Suc 0))
   \<and> (\<exists>r. DoWithData (0::int) (\<lambda>i. False)
          \<lparr>done_at = None, cerr = errorString ''context canceled''\<rparr>
          (\<lambda>n::nat. ((0, False), Suc n)) 0
          (\<lambda>c i t. if i < 2 then ((0, RetryableError (Some (errorString ''flaky''))), 1)
             else ((42, None), 1)) 0 = Some r
        \<and> calls (final r) = 3 \<and> nexts (final r) = 2 \<and> val r = 42 \<and> err r = None)"
  using success_after_retries
    [of "\<lparr>done_at = Some 1000, cerr = errorString ''context canceled''\<rparr>"
        "\<lambda>n::nat. ((5, 3 \<le> n), Suc n)"
        "\<lambda>c i t. if i < 2 then ((0::int, RetryableError (Some (errorString ''flaky''))), 1)
             else ((42, None), 1)"
        0 0 "Suc (Suc 0)" 42 0 "\<lambda>i. False"]
    success_after_retries
    [of "\<lparr>done_at = None, cerr = errorString ''context canceled''\<rparr>"
        "\<lambda>n::nat. ((0, False), Suc n)"
        "\<lambda>c i t. if i < 2 then ((0::int, RetryableError (Some (errorString ''flaky''))), 1)
             else ((42, None), 1)"
        0 0 "Suc (Suc 0)" 42 0 "\<lambda>i. False"]
  by (auto simp: after_wait_def NewTimer_def ctx_Done_def)

text \<open>
  C8: when the context is not done at the call and the first invocation returns \<open>v\<close>
  with a \<^verbatim>\<open>nil\<close> error, \<^verbatim>\<open>DoWithData\<close> returns \<open>v\<close> with a \<^verbatim>\<open>nil\<close> error after this
  one invocation; \<^verbatim>\<open>Next\<close> is not called and the backoff's state is as it was.
\<close>

theorem first_success_leaves_backoff:
  assumes "\<not> ctx_Done ctx t0"
    and "fst (f ctx 0 t0) = (v, None)"
  shows "DoWithData emptyT pick ctx Next b f t0 =
    Some \<lparr>val = v, err = None,
      final = \<lparr>now = t0 + snd (f ctx 0 t0), calls = 1, nexts = 0, bstate = b\<rparr>\<rparr>"
proof -
  let ?s = "\<lparr>now = t0, calls = 0, nexts = 0, bstate = b\<rparr>"
  have "\<not> ctx_Done ctx (now ?s)" using assms(1) by simp
  moreover have "f ctx (calls ?s) (now ?s) = ((v, None), snd (f ctx 0 t0))"
    using assms(2) by (cases "f ctx 0 t0") simp
  ultimately have "attempt emptyT pick ctx Next f ?s =
      Return \<lparr>val = v, err = None,
        final = ?s\<lparr>now := now ?s + snd (f ctx 0 t0), calls := Suc (calls ?s)\<rparr>\<rparr>"
    by (rule attempt_success)
  then show ?thesis
    by (simp add: DoWithData_def loop_Return)
qed

theorem first_success_leaves_backoff_witness:
  "\<not> ctx_Done \<lparr>done_at = None, cerr = errorString ''context canceled''\<rparr> 0
   \<and> DoWithData (0::int) (\<lambda>i. False)
        \<lparr>done_at = None, cerr = errorString ''context canceled''\<rparr>
        (\<lambda>n::nat. ((1, False), Suc n)) 7 (\<lambda>c i t. ((42, None), 3)) 0 =
      Some \<lparr>val = 42, err = None,
        final = \<lparr>now = 3, calls = 1, nexts = 0, bstate = 7\<rparr>\<rparr>"
  using first_success_leaves_backoff
    [of "\<lparr>done_at = None, cerr = errorString ''context canceled''\<rparr>" 0
        "\<lambda>c i t. ((42::int, None), 3)" 42 0 "\<lambda>i. False"
        "\<lambda>n::nat. ((1, False), Suc n)" 7]
  by (simp add: ctx_Done_def)

text \<open>
  C9: let an attempt return an error that carries a \<^verbatim>\<open>*retryableError\<close> below any
  number of wrapping layers. Then \<^verbatim>\<open>errors.As\<close> finds that \<^verbatim>\<open>*retryableError\<close>; if
  \<^verbatim>\<open>Next\<close> answers \<^verbatim>\<open>stop = true\<close> the loop returns the cause held by it, with the
  backoff in the state \<^verbatim>\<open>Next\<close> left; and whatever the loop returns, it has called
  \<^verbatim>\<open>Next\<close> at least once more than before this attempt, so the error was not returned
  at once as not retryable.
\<close>

theorem marker_at_any_depth_is_retryable:
  assumes "\<not> ctx_Done ctx (now s)"
    and "f ctx (calls s) (now s) = ((v, Some (wrap_layers ms (retryablePtr rerr))), d)"
    and "Next (bstate s) = ((dur, stop), b')"
  shows "errors_As (wrap_layers ms (retryablePtr rerr)) = Some rerr
   \<and> (stop \<longrightarrow>
      DoWithData_loop emptyT pick ctx Next f s =
        Some \<lparr>val = emptyT, err = Unwrap rerr,
          final = \<lparr>now = now s + d, calls = Suc (calls s), nexts = Suc (nexts s),
            bstate = b'\<rparr>\<rparr>)
   \<and> (\<forall>r. DoWithData_loop emptyT pick ctx Next f s = Some r \<longrightarrow>
         Suc (nexts s) \<le> nexts (final r))"
proof (intro conjI impI allI)
  show as: "errors_As (wrap_layers ms (retryablePtr rerr)) = Some rerr"
    by (simp add: errors_As_wrap_layers)
  {
    assume stop
    with assms as have "attempt emptyT pick ctx Next f s =
      Return \<lparr>val = emptyT, err = Unwrap rerr,
        final = \<lparr>now = now s + d, calls = Suc (calls s), nexts = Suc (nexts s),
          bstate = b'\<rparr>\<rparr>"
      by (simp add: attempt_stop)
    then show "DoWithData_loop emptyT pick ctx Next f s =
        Some \<lparr>val = emptyT, err = Unwrap rerr,
          final = \<lparr>now = now s + d, calls = Suc (calls s), nexts = Suc (nexts s),
            bstate = b'\<rparr>\<rparr>"
      by (rule loop_Return)
  }
  fix r assume r: "DoWithData_loop emptyT pick ctx Next f s = Some r"
  show "Suc (nexts s) \<le> nexts (final r)"
  proof (cases "attempt emptyT pick ctx Next f s")
    case (Return r')
    then have "attempt emptyT pick ctx Next f s = Return r"
      using r by (simp add: loop_Return)
    with assms(1,2) as have "nexts (final r) = Suc (nexts s)"
      by (rule attempt_retryable_nexts(1))
    then show ?thesis by simp
  next
    case (Continue s')
    then have "DoWithData_loop emptyT pick ctx Next f s' = Some r"
      using r by (simp add: loop_Continue)
    then have "nexts s' \<le> nexts (final r)" by (rule loop_nexts_mono)
    moreover have "nexts s' = Suc (nexts s)"
      using assms(1,2) as Continue by (rule attempt_retryable_nexts(2))
    ultimately show ?thesis by simp
  qed
qed

theorem marker_at_any_depth_is_retryable_witness:
  "\<not> ctx_Done \<lparr>done_at = None, cerr = errorString ''context canceled''\<rparr>
        (now \<lparr>now = 0, calls = 0, nexts = 0, bstate = 0::nat\<rparr>)
   \<and> errors_As (wrapError ''outer'' (wrapError ''inner''
          (retryablePtr (RetryableErr (Some (errorString ''flaky'')))))) =
        Some (RetryableErr (Some (errorString ''flaky'')))
   \<and> DoWithData_loop (0::int) (\<lambda>i. False)
        \<lparr>done_at = None, cerr = errorString ''context canceled''\<rparr>
        (\<lambda>n::nat. ((0, True), Suc n))
        (\<lambda>c i t. ((0, Some (wrapError ''outer'' (wrapError ''inner''
           (retryablePtr (RetryableErr (Some (errorString ''flaky''))))))), 1))
        \<lparr>now = 0, calls = 0, nexts = 0, bstate = 0\<rparr> =
      Some \<lparr>val = 0, err = Some (errorString ''flaky''),
        final = \<lparr>now = 1, calls = 1, nexts = 1, bstate = 1\<rparr>\<rparr>
   \<and> DoWithData_loop (0::int) (\<lambda>i. False)
        \<lparr>done_at = None, cerr = errorString ''context canceled''\<rparr>
        (\<lambda>n::nat. ((0, False), Suc n))
        (\<lambda>c i t. if i = 0
           then ((0, Some (wrapError ''outer'' (wrapError ''inner''
             (retryablePtr (RetryableErr (Some (errorString ''flaky''))))))), 1)
           else ((42, None), 1))
        \<lparr>now = 0, calls = 0, nexts = 0, bstate = 0\<rparr> =
      Some \<lparr>val = 42, err = None,
        final = \<lparr>now = 2, calls = 2, nexts = 1, bstate = 1\<rparr>\<rparr>
   \<and> Suc (nexts \<lparr>now = 0, calls = 0, nexts = 0, bstate = 0::nat\<rparr>) \<le>
       nexts (final \<lparr>val = 42::int, err = None,
         final = \<lparr>now = 2, calls = 2, nexts = 1, bstate = 1::nat\<rparr>\<rparr>)"
  using marker_at_any_depth_is_retryable
    [of "\<lparr>done_at = None, cerr = errorString ''context canceled''\<rparr>"
        "\<lparr>now = 0, calls = 0, nexts = 0, bstate = 0::nat\<rparr>"
        "\<lambda>c i t. ((0::int, Some (wrapError ''outer'' (wrapError ''inner''
           (retryablePtr (RetryableErr (Some (errorString ''flaky''))))))), 1)"
        0 "[''outer'', ''inner'']" "RetryableErr (Some (errorString ''flaky''))" 1
        "\<lambda>n::nat. ((0, True), Suc n)" 0 True 1 0 "\<lambda>i. False"]
    marker_at_any_depth_is_retryable
    [of "\<lparr>done_at = None, cerr = errorString ''context canceled''\<rparr>"
        "\<lparr>now = 0, calls = 0, nexts = 0, bstate = 0::nat\<rparr>"
        "\<lambda>c i t. if i = 0
           then ((0::int, Some (wrapError ''outer'' (wrapError ''inner''
             (retryablePtr (RetryableErr (Some (errorString ''flaky''))))))), 1)
           else ((42, None), 1)"
        0 "[''outer'', ''inner'']" "RetryableErr (Some (errorString ''flaky''))" 1
        "\<lambda>n::nat. ((0, False), Suc n)" 0 False 1 0 "\<lambda>i. False"]
  by (simp add: ctx_Done_def DoWithData_loop.simps attempt_def select_wait_def NewTimer_def)

subsection \<open>Cancellation\<close>

text \<open>
  C4: when the context is done at the call, \<^verbatim>\<open>DoWithData\<close> returns the zero value and
  the context's error without invoking the function. The check stands at the head of
  the loop body: in whatever state a pass through the loop starts, after any number of
  invocations, a context that is done then makes the loop return the zero value and the
  context's error with no further invocation.
\<close>

theorem cancelled_before_attempt:
  "(ctx_Done ctx t0 \<longrightarrow>
      DoWithData emptyT pick ctx Next b f t0 =
        Some \<lparr>val = emptyT, err = Some (cerr ctx),
          final = \<lparr>now = t0, calls = 0, nexts = 0, bstate = b\<rparr>\<rparr>)
   \<and> (ctx_Done ctx (now s) \<longrightarrow>
      DoWithData_loop emptyT pick ctx Next f s =
        Some \<lparr>val = emptyT, err = Some (cerr ctx), final = s\<rparr>)"
  by (simp add: DoWithData_def attempt_done loop_Return)

theorem cancelled_before_attempt_witness:
  "ctx_Done \<lparr>done_at = Some 5, cerr = errorString ''context canceled''\<rparr> 5
   \<and> DoWithData (0::int) (\<lambda>i. False)
        \<lparr>done_at = Some 5, cerr = errorString ''context canceled''\<rparr>
        (\<lambda>n::nat. ((1, False), Suc n)) 0 (\<lambda>c i t. ((42, None), 1)) 5 =
      Some \<lparr>val = 0, err = Some (errorString ''context canceled''),
        final = \<lparr>now = 5, calls = 0, nexts = 0, bstate = 0\<rparr>\<rparr>
   \<and> ctx_Done \<lparr>done_at = Some 5, cerr = errorString ''context canceled''\<rparr>
        (now \<lparr>now = 8, calls = 2, nexts = 2, bstate = 2::nat\<rparr>)
   \<and> DoWithData_loop (0::int) (\<lambda>i. False)
        \<lparr>done_at = Some 5, cerr = errorString ''context canceled''\<rparr>
        (\<lambda>n::nat. ((1, False), Suc n)) (\<lambda>c i t. ((42, None), 1))
        \<lparr>now = 8, calls = 2, nexts = 2, bstate = 2\<rparr> =
      Some \<lparr>val = 0, err = Some (errorString ''context canceled''),
        final = \<lparr>now = 8, calls = 2, nexts = 2, bstate = 2\<rparr>\<rparr>"
  using cancelled_before_attempt
    [of "\<lparr>done_at = Some 5, cerr = errorString ''context canceled''\<rparr>" 5
        "0::int" "\<lambda>i. False" "\<lambda>n::nat. ((1, False), Suc n)" 0
        "\<lambda>c i t. ((42, None), 1)" "\<lparr>now = 8, calls = 2, nexts = 2, bstate = 2\<rparr>"]
  by (simp add: ctx_Done_def)

text \<open>
  C5: take a pass through the loop that starts with a context not yet done, in which
  the function fails retryably after \<open>d\<close> ticks and \<^verbatim>\<open>Next\<close> returns a duration
  with \<^verbatim>\<open>stop = false\<close>. If the context becomes done during the wait, at an instant
  \<open>c\<close> after the attempt has ended and before the timer fires, this pass returns the
  zero value and the context's error at \<open>c\<close> from the waiting \<^verbatim>\<open>select\<close>, and so
  does the loop: the function is not invoked again. If the context is done when
  \<^verbatim>\<open>Next\<close> has returned, this pass returns the context's error at that instant from
  the check that stands before the timer, so before any wait, whatever the duration is
  and whichever case the runtime would pick in the waiting \<^verbatim>\<open>select\<close>: also with a
  duration of zero, where the timer would be ready at once.
\<close>

theorem cancelled_while_waiting:
  assumes "done_at ctx = Some c" and "now s < c"
    and "f ctx (calls s) (now s) = ((v, Some er), d)" and "errors_As er = Some rerr"
    and "Next (bstate s) = ((dur, False), b')"
  shows "(now s + d < c \<and> c < NewTimer (now s + d) dur \<longrightarrow>
      attempt emptyT pick ctx Next f s =
        Return \<lparr>val = emptyT, err = Some (cerr ctx),
          final = \<lparr>now = c, calls = Suc (calls s), nexts = Suc (nexts s), bstate = b'\<rparr>\<rparr>
      \<and> DoWithData_loop emptyT pick ctx Next f s =
        Some \<lparr>val = emptyT, err = Some (cerr ctx),
          final = \<lparr>now = c, calls = Suc (calls s), nexts = Suc (nexts s), bstate = b'\<rparr>\<rparr>)
   \<and> (ctx_Done ctx (now s + d) \<longrightarrow>
      attempt emptyT pick ctx Next f s =
        Return \<lparr>val = emptyT, err = Some (cerr ctx),
          final = \<lparr>now = now s + d, calls = Suc (calls s), nexts = Suc (nexts s),
            bstate = b'\<rparr>\<rparr>
      \<and> DoWithData_loop emptyT pick ctx Next f s =
        Some \<lparr>val = emptyT, err = Some (cerr ctx),
          final = \<lparr>now = now s + d, calls = Suc (calls s), nexts = Suc (nexts s),
            bstate = b'\<rparr>\<rparr>)"
proof -
  have live: "\<not> ctx_Done ctx (now s)" using assms(1,2) by (simp add: ctx_Done_def)
  have waiting: "attempt emptyT pick ctx Next f s =
        Return \<lparr>val = emptyT, err = Some (cerr ctx),
          final = \<lparr>now = c, calls = Suc (calls s), nexts = Suc (nexts s), bstate = b'\<rparr>\<rparr>"
    if "now s + d < c" and "c < NewTimer (now s + d) dur"
  proof -
    have 2: "\<not> ctx_Done ctx (now s + d)" using assms(1) that(1) by (simp add: ctx_Done_def)
    have 3: "select_wait (pick (calls s)) ctx (now s + d) (NewTimer (now s + d) dur) = CtxDone c"
      using assms(1) that by (simp add: select_wait_def max_def)
    have 4: "ctx_Err ctx c = Some (cerr ctx)" using assms(1) by (simp add: ctx_Err_def ctx_Done_def)
    show ?thesis
      using attempt_wait [of ctx s f v er d rerr Next dur b' emptyT pick, OF live assms(3,4,5) 2] 3 4
      by simp
  qed
  have before: "attempt emptyT pick ctx Next f s =
        Return \<lparr>val = emptyT, err = Some (cerr ctx),
          final = \<lparr>now = now s + d, calls = Suc (calls s), nexts = Suc (nexts s),
            bstate = b'\<rparr>\<rparr>"
    if "ctx_Done ctx (now s + d)"
    using live assms(3,4,5) that by (rule attempt_done_before_wait)
  show ?thesis
    using waiting before by (simp add: loop_Return)
qed

theorem cancelled_while_waiting_witness:
  "done_at \<lparr>done_at = Some 3, cerr = errorString ''context canceled''\<rparr> = Some 3
   \<and> now \<lparr>now = 0, calls = 0, nexts = 0, bstate = 0::nat\<rparr> + 1 < 3
   \<and> 3 < NewTimer (now \<lparr>now = 0, calls = 0, nexts = 0, bstate = 0::nat\<rparr> + 1) 5
   \<and> attempt (0::int) (\<lambda>i. True)
        \<lparr>done_at = Some 3, cerr = errorString ''context canceled''\<rparr>
        (\<lambda>n::nat. ((5, False), Suc n))
        (\<lambda>c i t. ((0, RetryableError (Some (errorString ''flaky''))), 1))
        \<lparr>now = 0, calls = 0, nexts = 0, bstate = 0\<rparr> =
      Return \<lparr>val = 0, err = Some (errorString ''context canceled''),
        final = \<lparr>now = 3, calls = 1, nexts = 1, bstate = 1\<rparr>\<rparr>
   \<and> DoWithData_loop (0::int) (\<lambda>i. True)
        \<lparr>done_at = Some 3, cerr = errorString ''context canceled''\<rparr>
        (\<lambda>n::nat. ((5, False), Suc n))
        (\<lambda>c i t. ((0, RetryableError (Some (errorString ''flaky''))), 1))
        \<lparr>now = 0, calls = 0, nexts = 0, bstate = 0\<rparr> =
      Some \<lparr>val = 0, err = Some (errorString ''context canceled''),
        final = \<lparr>now = 3, calls = 1, nexts = 1, bstate = 1\<rparr>\<rparr>
   \<and> ctx_Done \<lparr>done_at = Some 1, cerr = errorString ''context canceled''\<rparr>
        (now \<lparr>now = 0, calls = 0, nexts = 0, bstate = 0::nat\<rparr> + 2)
   \<and> attempt (0::int) (\<lambda>i. True)
        \<lparr>done_at = Some 1, cerr = errorString ''context canceled''\<rparr>
        (\<lambda>n::nat. ((0, False), Suc n))
        (\<lambda>c i t. ((0, RetryableError (Some (errorString ''flaky''))), 2))
        \<lparr>now = 0, calls = 0, nexts = 0, bstate = 0\<rparr> =
      Return \<lparr>val = 0, err = Some (errorString ''context canceled''),
        final = \<lparr>now = 2, calls = 1, nexts = 1, bstate = 1\<rparr>\<rparr>
   \<and> DoWithData_loop (0::int) (\<lambda>i. True)
        \<lparr>done_at = Some 1, cerr = errorString ''context canceled''\<rparr>
        (\<lambda>n::nat. ((0, False), Suc n))
        (\<lambda>c i t. ((0, RetryableError (Some (errorString ''flaky''))), 2))
        \<lparr>now = 0, calls = 0, nexts = 0, bstate = 0\<rparr> =
      Some \<lparr>val = 0, err = Some (errorString ''context canceled''),
        final = \<lparr>now = 2, calls = 1, nexts = 1, bstate = 1\<rparr>\<rparr>"
  using cancelled_while_waiting
    [of "\<lparr>done_at = Some 3, cerr = errorString ''context canceled''\<rparr>" 3
        "\<lparr>now = 0, calls = 0, nexts = 0, bstate = 0::nat\<rparr>"
        "\<lambda>c i t. ((0::int, RetryableError (Some (errorString ''flaky''))), 1)"
        0 "retryablePtr (RetryableErr (Some (errorString ''flaky'')))" 1
        "RetryableErr (Some (errorString ''flaky''))"
        "\<lambda>n::nat. ((5, False), Suc n)" 5 1 0 "\<lambda>i. True"]
    cancelled_while_waiting
    [of "\<lparr>done_at = Some 1, cerr = errorString ''context canceled''\<rparr>" 1
        "\<lparr>now = 0, calls = 0, nexts = 0, bstate = 0::nat\<rparr>"
        "\<lambda>c i t. ((0::int, RetryableError (Some (errorString ''flaky''))), 2)"
        0 "retryablePtr (RetryableErr (Some (errorString ''flaky'')))" 2
        "RetryableErr (Some (errorString ''flaky''))"
        "\<lambda>n::nat. ((0, False), Suc n)" 0 1 0 "\<lambda>i. True"]
  by (simp add: NewTimer_def ctx_Done_def)

text \<open>
  C10: when an attempt is started with a context not yet done and the context becomes
  done while the function runs, a \<^verbatim>\<open>nil\<close> error from the function still makes the loop
  return the function's value with a \<^verbatim>\<open>nil\<close> error, although the context is done at
  that instant.
\<close>

theorem success_despite_cancellation:
  assumes "done_at ctx = Some c" and "now s < c" and "c \<le> now s + d"
    and "f ctx (calls s) (now s) = ((v, None), d)"
  shows "ctx_Done ctx (now s + d)
   \<and> DoWithData_loop emptyT pick ctx Next f s =
       Some \<lparr>val = v, err = None, final = s\<lparr>now := now s + d, calls := Suc (calls s)\<rparr>\<rparr>"
proof
  show "ctx_Done ctx (now s + d)" using assms(1,3) by (simp add: ctx_Done_def)
  have "\<not> ctx_Done ctx (now s)" using assms(1,2) by (simp add: ctx_Done_def)
  then have "attempt emptyT pick ctx Next f s =
     Return \<lparr>val = v, err = None, final = s\<lparr>now := now s + d, calls := Suc (calls s)\<rparr>\<rparr>"
    using assms(4) by (rule attempt_success)
  then show "DoWithData_loop emptyT pick ctx Next f s =
       Some \<lparr>val = v, err = None, final = s\<lparr>now := now s + d, calls := Suc (calls s)\<rparr>\<rparr>"
    by (rule loop_Return)
qed

theorem success_despite_cancellation_witness:
  "done_at \<lparr>done_at = Some 2, cerr = errorString ''context canceled''\<rparr> = Some 2
   \<and> now \<lparr>now = 1, calls = 0, nexts = 0, bstate = 0::nat\<rparr> < 2
   \<and> 2 \<le> now \<lparr>now = 1, calls = 0, nexts = 0, bstate = 0::nat\<rparr> + 3
   \<and> ctx_Done \<lparr>done_at = Some 2, cerr = errorString ''context canceled''\<rparr> 4
   \<and> DoWithData_loop (0::int) (\<lambda>i. False)
        \<lparr>done_at = Some 2, cerr = errorString ''context canceled''\<rparr>
        (\<lambda>n::nat. ((1, False), Suc n)) (\<lambda>c i t. ((42, None), 3))
        \<lparr>now = 1, calls = 0, nexts = 0, bstate = 0\<rparr> =
      Some \<lparr>val = 42, err = None,
        final = \<lparr>now = 4, calls = 1, nexts = 0, bstate = 0\<rparr>\<rparr>"
  using success_despite_cancellation
    [of "\<lparr>done_at = Some 2, cerr = errorString ''context canceled''\<rparr>" 2
        "\<lparr>now = 1, calls = 0, nexts = 0, bstate = 0::nat\<rparr>" 3
        "\<lambda>c i t. ((42::int, None), 3)" 42 0 "\<lambda>i. False"
        "\<lambda>n::nat. ((1, False), Suc n)"]
  by simp

end
